theory Spec2Isabelle
  imports Main
begin

section \<open>Strings and the string functions of the standard library\<close>

text \<open>
  A Go string is a sequence of bytes, and so is a \<open>string\<close> of HOL. The program calls
  \<open>strings.Contains\<close>, \<open>strings.SplitN\<close> and \<open>strings.Split\<close> with the one-byte
  separators \<open>"-"\<close> and \<open>"."\<close> only, so the separator is a \<open>char\<close> here.
\<close>

definition Contains :: "string \<Rightarrow> char \<Rightarrow> bool" where
  "Contains s sep = (sep \<in> set s)"

definition Count :: "string \<Rightarrow> char \<Rightarrow> nat" where
  "Count s sep = length (filter (\<lambda>c. c = sep) s)"

text \<open>
  The loop of \<open>strings.genSplit\<close>: with \<open>k\<close> cuts left, cut at the first separator
  and go on behind it; with no cut left, or no separator, the rest is the last piece.
\<close>

fun splitLoop :: "nat \<Rightarrow> char \<Rightarrow> string \<Rightarrow> string list" where
  "splitLoop 0 sep s = [s]"
| "splitLoop (Suc k) sep s =
     (if sep \<in> set s
      then takeWhile (\<lambda>c. c \<noteq> sep) s # splitLoop k sep (tl (dropWhile (\<lambda>c. c \<noteq> sep) s))
      else [s])"

text \<open>
  \<open>strings.SplitN(s, sep, n)\<close>: no piece for \<open>n = 0\<close>, every piece for \<open>n < 0\<close>
  (the library sets \<open>n = Count(s, sep) + 1\<close>), at most \<open>n\<close> pieces otherwise.
  \<open>strings.Split(s, sep)\<close> is \<open>SplitN(s, sep, -1)\<close>.
\<close>

definition SplitN :: "string \<Rightarrow> char \<Rightarrow> int \<Rightarrow> string list" where
  "SplitN s sep n =
     (if n = 0 then []
      else splitLoop (if n < 0 then Count s sep else nat n - 1) sep s)"

definition Split :: "string \<Rightarrow> char \<Rightarrow> string list" where
  "Split s sep = SplitN s sep (- 1)"

section \<open>strconv.Atoi\<close>

text \<open>
  \<open>strconv.Atoi(s)\<close> is \<open>ParseInt(s, 10, 0)\<close> (its fast path for short strings
  computes the same value). The size of \<open>int\<close> is 64 bits, as on every 64-bit platform.
\<close>

datatype convErr = ErrSyntax | ErrRange

definition intSize :: nat where
  "intSize = 64"

definition isDigit :: "char \<Rightarrow> bool" where
  "isDigit c = (48 \<le> (of_char c :: nat) \<and> (of_char c :: nat) \<le> 57)"

definition digitVal :: "char \<Rightarrow> nat" where
  "digitVal c = of_char c - 48"

text \<open>
  The loop of \<open>ParseUint\<close> in base 10: a byte that is no digit is a syntax error, a
  value beyond the largest unsigned integer is a range error, whichever comes first.
\<close>

fun parseUintLoop :: "nat \<Rightarrow> string \<Rightarrow> convErr + nat" where
  "parseUintLoop n [] = Inr n"
| "parseUintLoop n (c # cs) =
     (if \<not> isDigit c then Inl ErrSyntax
      else if n * 10 + digitVal c > 2 ^ intSize - 1 then Inl ErrRange
      else parseUintLoop (n * 10 + digitVal c) cs)"

definition ParseUint :: "string \<Rightarrow> convErr + nat" where
  "ParseUint s = (if s = [] then Inl ErrSyntax else parseUintLoop 0 s)"

definition ParseInt :: "string \<Rightarrow> convErr + int" where
  "ParseInt s =
     (if s = [] then Inl ErrSyntax
      else let neg = (hd s = CHR ''-'');
               s1 = (if hd s = CHR ''+'' \<or> hd s = CHR ''-'' then tl s else s)
           in case ParseUint s1 of
                Inl ErrSyntax \<Rightarrow> Inl ErrSyntax
              | Inl ErrRange \<Rightarrow> Inl ErrRange
              | Inr un \<Rightarrow>
                  if \<not> neg \<and> un \<ge> 2 ^ (intSize - 1) then Inl ErrRange
                  else if neg \<and> un > 2 ^ (intSize - 1) then Inl ErrRange
                  else Inr (if neg then - int un else int un))"

section \<open>Errors\<close>

text \<open>
  The errors of the package, by what they say:
  \<^item> \<open>InvalidVersion v\<close>: \<^verbatim>\<open>version `v` is invalid\<close>;
  \<^item> \<open>InvalidCompare v\<close>: \<^verbatim>\<open>compare `v` is invalid\<close>;
  \<^item> \<open>ChunksErr n\<close>: \<^verbatim>\<open>versions with a tag should be 2 chunks. Got n\<close>;
  \<^item> \<open>PartsErr n\<close>: \<^verbatim>\<open>versions should be 2 or 3 parts. Got n\<close>;
  \<^item> \<open>NumError s e\<close>: the \<open>*strconv.NumError\<close> of \<open>Atoi\<close> on \<open>s\<close>.
\<close>

datatype error =
    InvalidVersion string
  | InvalidCompare string
  | ChunksErr nat
  | PartsErr nat
  | NumError string convErr

definition Atoi :: "string \<Rightarrow> error + int" where
  "Atoi s = (case ParseInt s of Inl e \<Rightarrow> Inl (NumError s e) | Inr i \<Rightarrow> Inr i)"

text \<open>
  \<open>errors.Trace\<close> of juju/errors records the place of the call and keeps the message
  and the cause of the error it is given: on the error as a value it is the identity.
\<close>

definition Trace :: "error \<Rightarrow> error" where
  "Trace err = err"

section \<open>Regular expressions\<close>

text \<open>
  The part of the syntax of Go's \<open>regexp\<close> that the pattern of the package uses: a literal
  byte, a class of byte ranges, concatenation, alternation, \<open>*\<close>, and the empty
  expression, from which \<open>+\<close> and \<open>?\<close> are made. Groups only structure the pattern.
\<close>

datatype rexp =
    Eps
  | Lit char
  | Cls "(char \<times> char) list"
  | Cat rexp rexp
  | Alt rexp rexp
  | Star rexp

abbreviation Plus :: "rexp \<Rightarrow> rexp" where
  "Plus r \<equiv> Cat r (Star r)"

abbreviation Opt :: "rexp \<Rightarrow> rexp" where
  "Opt r \<equiv> Alt r Eps"

definition byteInRange :: "char \<times> char \<Rightarrow> char \<Rightarrow> bool" where
  "byteInRange lohi c = ((of_char (fst lohi) :: nat) \<le> of_char c \<and> (of_char c :: nat) \<le> of_char (snd lohi))"

definition inClass :: "(char \<times> char) list \<Rightarrow> char \<Rightarrow> bool" where
  "inClass rs c = list_ex (\<lambda>r. byteInRange r c) rs"

text \<open>The words of a regular expression.\<close>

inductive_set star :: "string set \<Rightarrow> string set" for A :: "string set" where
  star_nil: "[] \<in> star A"
| star_app: "u \<in> A \<Longrightarrow> v \<in> star A \<Longrightarrow> u @ v \<in> star A"

fun lang :: "rexp \<Rightarrow> string set" where
  "lang Eps = {[]}"
| "lang (Lit c) = {[c]}"
| "lang (Cls rs) = {[c] | c. inClass rs c}"
| "lang (Cat p q) = {u @ v | u v. u \<in> lang p \<and> v \<in> lang q}"
| "lang (Alt p q) = lang p \<union> lang q"
| "lang (Star p) = star (lang p)"

text \<open>
  The matcher: \<open>run r s\<close> lists the rests of \<open>s\<close> behind every prefix of \<open>s\<close> that
  is a word of \<open>r\<close>. Under \<open>*\<close> an iteration that consumes nothing is not repeated.
\<close>

function run :: "rexp \<Rightarrow> string \<Rightarrow> string list" where
  "run Eps s = [s]"
| "run (Lit c) s = (case s of [] \<Rightarrow> [] | x # t \<Rightarrow> if x = c then [t] else [])"
| "run (Cls rs) s = (case s of [] \<Rightarrow> [] | x # t \<Rightarrow> if inClass rs x then [t] else [])"
| "run (Cat p q) s = remdups (concat (map (\<lambda>t. run q t) (run p s)))"
| "run (Alt p q) s = remdups (run p s @ run q s)"
| "run (Star p) s =
     s # remdups (concat (map (\<lambda>t. run (Star p) t)
                           (filter (\<lambda>t. length t < length s) (run p s))))"
  by pat_completeness auto
termination
  by (relation "measures [\<lambda>(r, s). size r, \<lambda>(r, s). length s]") auto

text \<open>
  \<open>MatchString\<close> for a pattern between \<open>^\<close> and \<open>$\<close> (no flags: the start and the end
  of the text): the whole string is a word of the pattern.
\<close>

definition MatchString :: "rexp \<Rightarrow> string \<Rightarrow> bool" where
  "MatchString re s = ([] \<in> set (run re s))"

section \<open>The package\<close>

definition expectedChunksWithTag :: nat where
  "expectedChunksWithTag = 2"

definition exptectedPartsWithRevision :: nat where
  "exptectedPartsWithRevision = 3"

record Semver =
  reValid :: rexp

record semVersion =
  major :: int
  minor :: int
  revision :: int
  tag :: string

definition Valid :: "Semver \<Rightarrow> string \<Rightarrow> bool" where
  "Valid s version = MatchString (reValid s) version"

definition buildVersion :: "Semver \<Rightarrow> string \<Rightarrow> error + semVersion" where
  "buildVersion s version0 =
     (case (if Contains version0 (CHR ''-'')
            then (let chunks = SplitN version0 (CHR ''-'') 2
                  in if length chunks \<noteq> expectedChunksWithTag
                     then Inl (ChunksErr (length chunks))
                     else Inr (chunks ! 1, chunks ! 0))
            else Inr ([], version0)) of
        Inl err \<Rightarrow> Inl err
      | Inr (tg, version) \<Rightarrow>
          (let versionParts = Split version (CHR ''.'');
               versionPartsLength = length versionParts
           in if versionPartsLength \<noteq> 2 \<and> versionPartsLength \<noteq> 3
              then Inl (PartsErr versionPartsLength)
              else case Atoi (versionParts ! 0) of
                     Inl err \<Rightarrow> Inl (Trace err)
                   | Inr mj \<Rightarrow>
                  (case Atoi (versionParts ! 1) of
                     Inl err \<Rightarrow> Inl (Trace err)
                   | Inr mn \<Rightarrow>
                  (if versionPartsLength = exptectedPartsWithRevision
                   then case Atoi (versionParts ! 2) of
                          Inl err \<Rightarrow> Inl (Trace err)
                        | Inr rv \<Rightarrow> Inr \<lparr>major = mj, minor = mn, revision = rv, tag = tg\<rparr>
                   else Inr \<lparr>major = mj, minor = mn, revision = 0, tag = tg\<rparr>))))"

text \<open>
  The pattern that \<open>New\<close> compiles, piece by piece:
  \<^verbatim>\<open>(0|[1-9]\d*)\<close> is \<open>reNumeric\<close>,
  \<^verbatim>\<open>(?:0|[1-9]\d*|\d*[a-zA-Z-][0-9a-zA-Z-]*)\<close> is \<open>reIdent\<close>,
  \<^verbatim>\<open>(?:-((?:ident)(?:\.(?:ident))*))?\<close> is \<open>Opt rePrerelease\<close> and
  \<^verbatim>\<open>(?:\+([0-9a-zA-Z-]+(?:\.[0-9a-zA-Z-]+)*))?\<close> is \<open>Opt reBuild\<close>.
  In Go \<^verbatim>\<open>\d\<close> is \<^verbatim>\<open>[0-9]\<close>.
\<close>

definition reDigit :: rexp where
  "reDigit = Cls [(CHR ''0'', CHR ''9'')]"

definition reAlnum :: rexp where
  "reAlnum = Cls [(CHR ''0'', CHR ''9''), (CHR ''a'', CHR ''z''), (CHR ''A'', CHR ''Z''),
                  (CHR ''-'', CHR ''-'')]"

definition reNumeric :: rexp where
  "reNumeric = Alt (Lit (CHR ''0'')) (Cat (Cls [(CHR ''1'', CHR ''9'')]) (Star reDigit))"

definition reIdent :: rexp where
  "reIdent =
     Alt (Lit (CHR ''0''))
       (Alt (Cat (Cls [(CHR ''1'', CHR ''9'')]) (Star reDigit))
            (Cat (Star reDigit)
               (Cat (Cls [(CHR ''a'', CHR ''z''), (CHR ''A'', CHR ''Z''), (CHR ''-'', CHR ''-'')])
                    (Star reAlnum))))"

definition rePrerelease :: rexp where
  "rePrerelease =
     Cat (Lit (CHR ''-'')) (Cat reIdent (Star (Cat (Lit (CHR ''.'')) reIdent)))"

definition reBuild :: rexp where
  "reBuild =
     Cat (Lit (CHR ''+''))
       (Cat (Plus reAlnum) (Star (Cat (Lit (CHR ''.'')) (Plus reAlnum))))"

definition semverPattern :: rexp where
  "semverPattern =
     Cat reNumeric (Cat (Lit (CHR ''.''))
    (Cat reNumeric (Cat (Lit (CHR ''.''))
    (Cat reNumeric
    (Cat (Opt rePrerelease) (Opt reBuild))))))"

text \<open>
  \<open>New\<close>: the pattern is a constant that compiles, so the error of \<open>regexp.Compile\<close>
  does not occur and \<open>New\<close> returns the instance.
\<close>

definition New :: Semver where
  "New = \<lparr>reValid = semverPattern\<rparr>"

definition GreaterThanOrEqual :: "Semver \<Rightarrow> string \<Rightarrow> string \<Rightarrow> bool \<times> error option" where
  "GreaterThanOrEqual s version compare =
     (if \<not> Valid s version then (False, Some (InvalidVersion version))
      else if \<not> Valid s compare then (False, Some (InvalidCompare compare))
      else case buildVersion s version of
             Inl err \<Rightarrow> (False, Some (Trace err))
           | Inr semVersion \<Rightarrow>
          (case buildVersion s compare of
             Inl err \<Rightarrow> (False, Some (Trace err))
           | Inr semCompare \<Rightarrow>
               if major semVersion < major semCompare then (False, None)
               else if major semVersion > major semCompare then (True, None)
               else if minor semVersion < minor semCompare then (False, None)
               else if minor semVersion > minor semCompare then (True, None)
               else (revision semVersion \<ge> revision semCompare, None)))"

definition SmallerThanOrEqual :: "Semver \<Rightarrow> string \<Rightarrow> string \<Rightarrow> bool \<times> error option" where
  "SmallerThanOrEqual s version compare =
     (if \<not> Valid s version then (False, Some (InvalidVersion version))
      else if \<not> Valid s compare then (False, Some (InvalidCompare compare))
      else case buildVersion s version of
             Inl err \<Rightarrow> (False, Some (Trace err))
           | Inr semVersion \<Rightarrow>
          (case buildVersion s compare of
             Inl err \<Rightarrow> (False, Some (Trace err))
           | Inr semCompare \<Rightarrow>
               if major semVersion > major semCompare then (False, None)
               else if major semVersion < major semCompare then (True, None)
               else if minor semVersion > minor semCompare then (False, None)
               else if minor semVersion < minor semCompare then (True, None)
               else (revision semVersion \<le> revision semCompare, None)))"

definition InRange :: "Semver \<Rightarrow> string \<Rightarrow> string \<Rightarrow> string \<Rightarrow> bool \<times> error option" where
  "InRange s version start end' =
     (case GreaterThanOrEqual s version start of
        (_, Some err) \<Rightarrow> (False, Some (Trace err))
      | (greaterThanOrEqual, None) \<Rightarrow>
          if end' \<noteq> []
          then (case SmallerThanOrEqual s version end' of
                  (_, Some err) \<Rightarrow> (False, Some (Trace err))
                | (smallerThanOrEqual, None) \<Rightarrow>
                    (greaterThanOrEqual \<and> smallerThanOrEqual, None))
          else (greaterThanOrEqual \<and> True, None))"

section \<open>Notions for the statements\<close>

text \<open>The value of a string of decimal digits, as the loop of \<open>ParseUint\<close> adds it up.\<close>

definition decimal :: "string \<Rightarrow> nat" where
  "decimal p = foldl (\<lambda>n c. n * 10 + digitVal c) 0 p"

text \<open>The pieces between the dots of what stands before the first dash.\<close>

definition coreParts :: "string \<Rightarrow> string list" where
  "coreParts s = Split (takeWhile (\<lambda>c. c \<noteq> CHR ''-'') s) (CHR ''.'')"


text \<open>The words of \<^verbatim>\<open>0|[1-9]\d*\<close>.\<close>

definition numeric :: "string \<Rightarrow> bool" where
  "numeric a = (a \<noteq> [] \<and> list_all isDigit a \<and> (a = ''0'' \<or> hd a \<noteq> CHR ''0''))"

section \<open>Evaluation\<close>

lemmas string_eval = Contains_def SplitN_def Split_def Count_def

lemmas atoi_eval = Atoi_def ParseInt_def ParseUint_def isDigit_def digitVal_def intSize_def

lemmas build_eval = buildVersion_def expectedChunksWithTag_def exptectedPartsWithRevision_def
  Trace_def string_eval atoi_eval

lemmas valid_eval = Valid_def New_def MatchString_def semverPattern_def reBuild_def
  rePrerelease_def reIdent_def reNumeric_def reAlnum_def reDigit_def inClass_def byteInRange_def

section \<open>The matcher decides the language of the pattern\<close>

lemma star_cases_nonempty:
  assumes "w \<in> star A"
  shows "w = [] \<or> (\<exists>u v. w = u @ v \<and> u \<noteq> [] \<and> u \<in> A \<and> v \<in> star A)"
  using assms
proof (induction rule: star.induct)
  case star_nil
  show ?case by simp
next
  case (star_app u v)
  show ?case
  proof (cases "u = []")
    case True
    with star_app.IH show ?thesis by simp
  next
    case False
    with star_app.hyps show ?thesis by blast
  qed
qed

lemma run_rests: "set (run r s) = {t. \<exists>u. s = u @ t \<and> u \<in> lang r}"
proof (induction r s rule: run.induct)
  case (1 s)
  show ?case by auto
next
  case (2 c s)
  show ?case by (cases s) auto
next
  case (3 rs s)
  show ?case by (cases s) auto
next
  case (4 p q s)
  have p: "\<And>t. t \<in> set (run p s) \<longleftrightarrow> (\<exists>u. s = u @ t \<and> u \<in> lang p)"
    using "4.IH"(1) by simp
  have q: "\<And>t t'. t \<in> set (run p s) \<Longrightarrow>
      t' \<in> set (run q t) \<longleftrightarrow> (\<exists>v. t = v @ t' \<and> v \<in> lang q)"
    using "4.IH"(2) by simp
  have unfold: "\<And>t'. t' \<in> set (run (Cat p q) s) \<longleftrightarrow>
      (\<exists>t \<in> set (run p s). t' \<in> set (run q t))"
    by simp
  show ?case
  proof (intro set_eqI iffI)
    fix t' assume "t' \<in> set (run (Cat p q) s)"
    then obtain t where t: "t \<in> set (run p s)" and "t' \<in> set (run q t)"
      unfolding unfold by blast
    then obtain v where v: "t = v @ t'" "v \<in> lang q"
      using q by blast
    from t obtain u where u: "s = u @ t" "u \<in> lang p"
      using p by blast
    have "s = (u @ v) @ t'"
      using u(1) v(1) by simp
    moreover have "u @ v \<in> lang (Cat p q)"
      using u(2) v(2) by auto
    ultimately show "t' \<in> {t'. \<exists>u. s = u @ t' \<and> u \<in> lang (Cat p q)}"
      by blast
  next
    fix t' assume "t' \<in> {t'. \<exists>u. s = u @ t' \<and> u \<in> lang (Cat p q)}"
    then obtain w where w: "s = w @ t'" "w \<in> lang (Cat p q)"
      by blast
    from w(2) obtain u v where uv: "w = u @ v" "u \<in> lang p" "v \<in> lang q"
      by auto
    have "s = u @ (v @ t')"
      using w(1) uv(1) by simp
    with uv(2) have t: "v @ t' \<in> set (run p s)"
      using p by blast
    from q [OF t] uv(3) have "t' \<in> set (run q (v @ t'))"
      by blast
    with t show "t' \<in> set (run (Cat p q) s)"
      unfolding unfold by blast
  qed
next
  case (5 p q s)
  then show ?case by auto
next
  case (6 p s)
  let ?short = "filter (\<lambda>t. length t < length s) (run p s)"
  have unfold: "\<And>t'. t' \<in> set (run (Star p) s) \<longleftrightarrow>
      t' = s \<or> (\<exists>t \<in> set ?short. t' \<in> set (run (Star p) t))"
    by (subst run.simps) (simp del: run.simps)
  have short: "\<And>t. t \<in> set ?short \<longleftrightarrow>
      length t < length s \<and> (\<exists>u. s = u @ t \<and> u \<in> lang p)"
    using "6.IH"(1) by auto
  have ih: "\<And>t t'. t \<in> set ?short \<Longrightarrow>
      t' \<in> set (run (Star p) t) \<longleftrightarrow> (\<exists>v. t = v @ t' \<and> v \<in> star (lang p))"
    using "6.IH"(2) by (simp del: run.simps)
  show ?case
  proof (intro set_eqI iffI)
    fix t' assume "t' \<in> set (run (Star p) s)"
    then have "t' = s \<or> (\<exists>t \<in> set ?short. t' \<in> set (run (Star p) t))"
      unfolding unfold .
    then show "t' \<in> {t'. \<exists>u. s = u @ t' \<and> u \<in> lang (Star p)}"
    proof
      assume "t' = s"
      then have "s = [] @ t'" and "[] \<in> lang (Star p)"
        by (simp_all add: star_nil)
      then show ?thesis by blast
    next
      assume "\<exists>t \<in> set ?short. t' \<in> set (run (Star p) t)"
      then obtain t where t: "t \<in> set ?short" and t': "t' \<in> set (run (Star p) t)"
        by blast
      from t' ih [OF t] obtain v where v: "t = v @ t'" "v \<in> star (lang p)"
        by blast
      from t short obtain u where u: "s = u @ t" "u \<in> lang p"
        by blast
      have "s = (u @ v) @ t'"
        using u(1) v(1) by simp
      moreover have "u @ v \<in> lang (Star p)"
        using u(2) v(2) by (simp add: star_app)
      ultimately show ?thesis by blast
    qed
  next
    fix t' assume "t' \<in> {t'. \<exists>u. s = u @ t' \<and> u \<in> lang (Star p)}"
    then obtain w where w: "s = w @ t'" "w \<in> star (lang p)"
      by auto
    from star_cases_nonempty [OF w(2)] show "t' \<in> set (run (Star p) s)"
    proof
      assume "w = []"
      with w(1) have "t' = s" by simp
      then show ?thesis unfolding unfold by blast
    next
      assume "\<exists>u v. w = u @ v \<and> u \<noteq> [] \<and> u \<in> lang p \<and> v \<in> star (lang p)"
      then obtain u v where uv: "w = u @ v" "u \<noteq> []" "u \<in> lang p" "v \<in> star (lang p)"
        by blast
      have s: "s = u @ (v @ t')"
        using w(1) uv(1) by simp
      then have "length (v @ t') < length s"
        using uv(2) by simp
      with s uv(3) have sh: "v @ t' \<in> set ?short"
        using short by blast
      from ih [OF sh] uv(4) have "t' \<in> set (run (Star p) (v @ t'))"
        by blast
      with sh show ?thesis unfolding unfold by blast
    qed
  qed
qed

lemma MatchString_lang: "MatchString re s \<longleftrightarrow> s \<in> lang re"
  by (simp add: MatchString_def run_rests)

subsection \<open>The shape of a valid string\<close>

lemma of_char_zero: "(of_char c :: nat) = 48 \<longleftrightarrow> c = CHR ''0''"
  using of_char_eq_iff [of c "CHR ''0''", where ?'a = nat] by simp

lemma lang_reDigit: "lang reDigit = {[c] | c. isDigit c}"
  by (simp add: reDigit_def inClass_def byteInRange_def isDigit_def)

lemma star_digits:
  assumes "u \<in> star {[c] | c. isDigit c}"
  shows "list_all isDigit u"
  using assms by (induction rule: star.induct) auto

lemma nonzero_digit:
  "inClass [(CHR ''1'', CHR ''9'')] c \<longleftrightarrow> isDigit c \<and> c \<noteq> CHR ''0''"
proof -
  have "(of_char c :: nat) \<noteq> 48 \<longleftrightarrow> c \<noteq> CHR ''0''"
    by (simp add: of_char_zero)
  then show ?thesis
    by (auto simp: inClass_def byteInRange_def isDigit_def)
qed

lemma lang_reNumeric:
  assumes "a \<in> lang reNumeric"
  shows "numeric a"
proof -
  from assms have "a = ''0'' \<or>
      (\<exists>c u. a = c # u \<and> isDigit c \<and> c \<noteq> CHR ''0'' \<and> u \<in> star {[c] | c. isDigit c})"
    by (auto simp: reNumeric_def nonzero_digit lang_reDigit)
  then show ?thesis
  proof
    assume "a = ''0''"
    then show ?thesis by (simp add: numeric_def isDigit_def)
  next
    assume "\<exists>c u. a = c # u \<and> isDigit c \<and> c \<noteq> CHR ''0'' \<and> u \<in> star {[c] | c. isDigit c}"
    then obtain c u where "a = c # u" "isDigit c" "c \<noteq> CHR ''0''"
      "u \<in> star {[c] | c. isDigit c}"
      by blast
    then show ?thesis by (simp add: numeric_def star_digits)
  qed
qed

lemma lang_opt_prerelease:
  assumes "x \<in> lang (Opt rePrerelease)"
  shows "x = [] \<or> (\<exists>t. x = CHR ''-'' # t)"
  using assms by (auto simp: rePrerelease_def)

lemma lang_opt_build:
  assumes "y \<in> lang (Opt reBuild)"
  shows "y = [] \<or> (\<exists>t. y = CHR ''+'' # t)"
  using assms by (auto simp: reBuild_def)

lemma valid_shape:
  assumes "Valid New s"
  shows "\<exists>a b c x y. s = a @ ''.'' @ b @ ''.'' @ c @ x @ y \<and>
           numeric a \<and> numeric b \<and> numeric c \<and>
           (x = [] \<or> (\<exists>t. x = CHR ''-'' # t)) \<and> (y = [] \<or> (\<exists>t. y = CHR ''+'' # t))"
proof -
  from assms have "s \<in> lang semverPattern"
    by (simp add: Valid_def New_def MatchString_lang)
  then obtain a b c x y where s: "s = a @ ''.'' @ b @ ''.'' @ c @ x @ y"
    and a: "a \<in> lang reNumeric" and b: "b \<in> lang reNumeric" and c: "c \<in> lang reNumeric"
    and x: "x \<in> lang (Opt rePrerelease)" and y: "y \<in> lang (Opt reBuild)"
    unfolding semverPattern_def lang.simps by blast
  have "s = a @ ''.'' @ b @ ''.'' @ c @ x @ y \<and>
           numeric a \<and> numeric b \<and> numeric c \<and>
           (x = [] \<or> (\<exists>t. x = CHR ''-'' # t)) \<and> (y = [] \<or> (\<exists>t. y = CHR ''+'' # t))"
    using s lang_reNumeric [OF a] lang_reNumeric [OF b] lang_reNumeric [OF c]
      lang_opt_prerelease [OF x] lang_opt_build [OF y]
    by (intro conjI)
  then show ?thesis by (intro exI)
qed

subsection \<open>Splitting and converting the pieces of a core\<close>

lemma splitLoop_no_sep: "sep \<notin> set a \<Longrightarrow> splitLoop k sep a = [a]"
  by (cases k) simp_all

lemma takeWhile_sep: "sep \<notin> set a \<Longrightarrow> takeWhile (\<lambda>c. c \<noteq> sep) (a @ sep # r) = a"
  by (induction a) auto

lemma dropWhile_sep: "sep \<notin> set a \<Longrightarrow> dropWhile (\<lambda>c. c \<noteq> sep) (a @ sep # r) = sep # r"
  by (induction a) auto

lemma splitLoop_cut:
  assumes "sep \<notin> set a"
  shows "splitLoop (Suc k) sep (a @ sep # r) = a # splitLoop k sep r"
  using assms by (simp add: takeWhile_sep dropWhile_sep)

lemma Count_no_sep: "sep \<notin> set a \<Longrightarrow> Count a sep = 0"
  by (induction a) (auto simp: Count_def)

lemma Count_cut: "Count (a @ sep # r) sep = Suc (Count a sep + Count r sep)"
  by (simp add: Count_def)

lemma Split_two:
  assumes "sep \<notin> set a" and "sep \<notin> set b"
  shows "Split (a @ sep # b) sep = [a, b]"
  using assms
  by (simp add: Split_def SplitN_def Count_cut Count_no_sep splitLoop_cut splitLoop_no_sep
      del: splitLoop.simps(2))

lemma Split_three:
  assumes "sep \<notin> set a" and "sep \<notin> set b" and "sep \<notin> set c"
  shows "Split (a @ sep # b @ sep # c) sep = [a, b, c]"
  using assms
  by (simp add: Split_def SplitN_def Count_cut Count_no_sep splitLoop_cut splitLoop_no_sep
      del: splitLoop.simps(2))

lemma SplitN_first:
  assumes "sep \<notin> set a"
  shows "SplitN (a @ sep # t) sep 2 = [a, t]"
proof -
  have "nat 2 - 1 = Suc 0" by simp
  with assms show ?thesis
    by (simp add: SplitN_def splitLoop_cut del: splitLoop.simps(2))
qed

lemma SplitN_two_chunks:
  assumes "sep \<in> set s"
  shows "SplitN s sep 2 = [takeWhile (\<lambda>c. c \<noteq> sep) s, tl (dropWhile (\<lambda>c. c \<noteq> sep) s)]"
proof -
  have "nat 2 - 1 = Suc 0" by simp
  with assms show ?thesis
    by (simp add: SplitN_def)
qed

lemma digits_no_sep:
  assumes "list_all isDigit a"
  shows "CHR ''.'' \<notin> set a" and "CHR ''-'' \<notin> set a" and "CHR ''+'' \<notin> set a"
proof -
  have "\<not> isDigit (CHR ''.'')" "\<not> isDigit (CHR ''-'')" "\<not> isDigit (CHR ''+'')"
    by (simp_all add: isDigit_def)
  with assms show "CHR ''.'' \<notin> set a" and "CHR ''-'' \<notin> set a" and "CHR ''+'' \<notin> set a"
    by (auto simp: list_all_iff)
qed

lemma foldl_decimal_ge: "n \<le> foldl (\<lambda>n c. n * 10 + digitVal c) n a"
proof (induction a arbitrary: n)
  case Nil
  show ?case by simp
next
  case (Cons c a)
  have "n \<le> n * 10 + digitVal c" by simp
  also have "\<dots> \<le> foldl (\<lambda>n c. n * 10 + digitVal c) (n * 10 + digitVal c) a"
    by (rule Cons.IH)
  finally show ?case by simp
qed

lemma parseUintLoop_digits:
  assumes "list_all isDigit a"
    and "foldl (\<lambda>n c. n * 10 + digitVal c) n a \<le> 2 ^ intSize - 1"
  shows "parseUintLoop n a = Inr (foldl (\<lambda>n c. n * 10 + digitVal c) n a)"
  using assms
proof (induction a arbitrary: n)
  case Nil
  show ?case by simp
next
  case (Cons c a)
  have "n * 10 + digitVal c \<le> foldl (\<lambda>n c. n * 10 + digitVal c) (n * 10 + digitVal c) a"
    by (rule foldl_decimal_ge)
  with Cons.prems(2) have "n * 10 + digitVal c \<le> 2 ^ intSize - 1"
    by simp
  with Cons show ?case by simp
qed

lemma Atoi_digits:
  assumes "a \<noteq> []" and "list_all isDigit a" and "decimal a < 2 ^ (intSize - 1)"
  shows "Atoi a = Inr (int (decimal a))"
proof -
  have "(2::nat) ^ (intSize - 1) \<le> 2 ^ intSize - 1"
    by (simp add: intSize_def)
  with assms(3) have "decimal a \<le> 2 ^ intSize - 1"
    by simp
  with assms(2) have loop: "parseUintLoop 0 a = Inr (decimal a)"
    unfolding decimal_def by (rule parseUintLoop_digits)
  from assms(1,2) have "isDigit (hd a)"
    by (cases a) simp_all
  moreover have "\<not> isDigit (CHR ''-'')" "\<not> isDigit (CHR ''+'')"
    by (simp_all add: isDigit_def)
  ultimately have "hd a \<noteq> CHR ''-''" "hd a \<noteq> CHR ''+''"
    by auto
  with assms(1,3) loop show ?thesis
    by (simp add: Atoi_def ParseInt_def ParseUint_def)
qed

subsection \<open>Parsing a core of two or three pieces\<close>

lemma build_two:
  assumes "CHR ''.'' \<notin> set a" and "CHR ''.'' \<notin> set b"
    and "CHR ''-'' \<notin> set a" and "CHR ''-'' \<notin> set b"
    and "Atoi a = Inr i" and "Atoi b = Inr j"
  shows "buildVersion s (a @ ''.'' @ b) =
           Inr \<lparr>major = i, minor = j, revision = 0, tag = []\<rparr>"
proof -
  have "Split (a @ CHR ''.'' # b) (CHR ''.'') = [a, b]"
    using assms(1,2) by (rule Split_two)
  with assms(3-) show ?thesis
    by (simp add: buildVersion_def Contains_def exptectedPartsWithRevision_def)
qed

lemma build_three:
  assumes "CHR ''.'' \<notin> set a" and "CHR ''.'' \<notin> set b" and "CHR ''.'' \<notin> set c"
    and "CHR ''-'' \<notin> set a" and "CHR ''-'' \<notin> set b" and "CHR ''-'' \<notin> set c"
    and "Atoi a = Inr i" and "Atoi b = Inr j" and "Atoi c = Inr k"
  shows "buildVersion s (a @ ''.'' @ b @ ''.'' @ c) =
           Inr \<lparr>major = i, minor = j, revision = k, tag = []\<rparr>"
proof -
  have "Split (a @ CHR ''.'' # b @ CHR ''.'' # c) (CHR ''.'') = [a, b, c]"
    using assms(1-3) by (rule Split_three)
  with assms(4-) show ?thesis
    by (simp add: buildVersion_def Contains_def exptectedPartsWithRevision_def)
qed

lemma build_three_tag:
  assumes "CHR ''.'' \<notin> set a" and "CHR ''.'' \<notin> set b" and "CHR ''.'' \<notin> set c"
    and "CHR ''-'' \<notin> set a" and "CHR ''-'' \<notin> set b" and "CHR ''-'' \<notin> set c"
    and "Atoi a = Inr i" and "Atoi b = Inr j" and "Atoi c = Inr k"
  shows "buildVersion s (a @ ''.'' @ b @ ''.'' @ c @ CHR ''-'' # t) =
           Inr \<lparr>major = i, minor = j, revision = k, tag = t\<rparr>"
proof -
  let ?core = "a @ CHR ''.'' # b @ CHR ''.'' # c"
  have parts: "Split ?core (CHR ''.'') = [a, b, c]"
    using assms(1-3) by (rule Split_three)
  have "CHR ''-'' \<notin> set ?core"
    using assms(4-6) by simp
  then have "SplitN (?core @ CHR ''-'' # t) (CHR ''-'') 2 = [?core, t]"
    by (rule SplitN_first)
  then have chunks: "SplitN (a @ CHR ''.'' # b @ CHR ''.'' # c @ CHR ''-'' # t) (CHR ''-'') 2
      = [?core, t]"
    by simp
  show ?thesis
    using assms(7-) parts
    by (simp add: buildVersion_def Contains_def chunks expectedChunksWithTag_def
        exptectedPartsWithRevision_def)
qed

lemma numeric_pieces:
  assumes "numeric a"
  shows "a \<noteq> []" and "list_all isDigit a"
    and "CHR ''.'' \<notin> set a" and "CHR ''-'' \<notin> set a" and "CHR ''+'' \<notin> set a"
  using assms digits_no_sep [of a] by (simp_all add: numeric_def)

lemma valid_core:
  assumes "Valid New s" and "CHR ''+'' \<notin> set (takeWhile (\<lambda>c. c \<noteq> CHR ''-'') s)"
  shows "\<exists>a b c. numeric a \<and> numeric b \<and> numeric c \<and>
           (s = a @ ''.'' @ b @ ''.'' @ c \<or> (\<exists>t. s = a @ ''.'' @ b @ ''.'' @ c @ CHR ''-'' # t))"
proof -
  from valid_shape [OF assms(1)] obtain a b c x y where
    s: "s = a @ ''.'' @ b @ ''.'' @ c @ x @ y"
    and n: "numeric a" "numeric b" "numeric c"
    and x: "x = [] \<or> (\<exists>t. x = CHR ''-'' # t)"
    and y: "y = [] \<or> (\<exists>t. y = CHR ''+'' # t)"
    by blast
  note na = numeric_pieces [OF n(1)] and nb = numeric_pieces [OF n(2)]
    and nc = numeric_pieces [OF n(3)]
  let ?core = "a @ CHR ''.'' # b @ CHR ''.'' # c"
  have nodash: "\<And>e. e \<in> set ?core \<Longrightarrow> e \<noteq> CHR ''-''"
    using na(4) nb(4) nc(4) by auto
  have "s = a @ ''.'' @ b @ ''.'' @ c \<or> (\<exists>t. s = a @ ''.'' @ b @ ''.'' @ c @ CHR ''-'' # t)"
  proof (cases "x = []")
    case False
    with x obtain t where "x = CHR ''-'' # t" by blast
    with s have "s = a @ ''.'' @ b @ ''.'' @ c @ CHR ''-'' # (t @ y)" by simp
    then show ?thesis by blast
  next
    case True
    have "y = []"
    proof (rule ccontr)
      assume "y \<noteq> []"
      with y obtain t where "y = CHR ''+'' # t" by blast
      with s True have "s = ?core @ CHR ''+'' # t" by simp
      moreover have "takeWhile (\<lambda>c. c \<noteq> CHR ''-'') (?core @ CHR ''+'' # t) =
          ?core @ takeWhile (\<lambda>c. c \<noteq> CHR ''-'') (CHR ''+'' # t)"
        using nodash by (rule takeWhile_append2)
      ultimately have "CHR ''+'' \<in> set (takeWhile (\<lambda>c. c \<noteq> CHR ''-'') s)"
        by simp
      with assms(2) show False by simp
    qed
    with s True show ?thesis by simp
  qed
  with n show ?thesis by blast
qed

lemma valid_builds:
  assumes "Valid New s" and "CHR ''+'' \<notin> set (takeWhile (\<lambda>c. c \<noteq> CHR ''-'') s)"
    and "\<forall>p \<in> set (coreParts s). decimal p < 2 ^ (intSize - 1)"
  shows "\<exists>t. buildVersion r s =
           Inr \<lparr>major = int (decimal (coreParts s ! 0)), minor = int (decimal (coreParts s ! 1)),
                revision = int (decimal (coreParts s ! 2)), tag = t\<rparr>"
proof -
  from valid_core [OF assms(1,2)] obtain a b c where
    n: "numeric a" "numeric b" "numeric c"
    and s: "s = a @ ''.'' @ b @ ''.'' @ c \<or> (\<exists>t. s = a @ ''.'' @ b @ ''.'' @ c @ CHR ''-'' # t)"
    by blast
  note na = numeric_pieces [OF n(1)] and nb = numeric_pieces [OF n(2)]
    and nc = numeric_pieces [OF n(3)]
  let ?core = "a @ CHR ''.'' # b @ CHR ''.'' # c"
  have nodash: "CHR ''-'' \<notin> set ?core"
    using na(4) nb(4) nc(4) by simp
  have "takeWhile (\<lambda>c. c \<noteq> CHR ''-'') s = ?core"
    using s
  proof
    assume "s = a @ ''.'' @ b @ ''.'' @ c"
    then have "s = ?core" by simp
    with nodash show ?thesis by (auto simp: takeWhile_eq_all_conv)
  next
    assume "\<exists>t. s = a @ ''.'' @ b @ ''.'' @ c @ CHR ''-'' # t"
    then obtain t where "s = ?core @ CHR ''-'' # t" by auto
    moreover have "takeWhile (\<lambda>c. c \<noteq> CHR ''-'') (?core @ CHR ''-'' # t) = ?core"
      using nodash by (rule takeWhile_sep)
    ultimately show ?thesis by (simp only:)
  qed
  then have parts: "coreParts s = [a, b, c]"
    using na(3) nb(3) nc(3) by (simp add: coreParts_def Split_three)
  with assms(3) have "decimal a < 2 ^ (intSize - 1)" "decimal b < 2 ^ (intSize - 1)"
    "decimal c < 2 ^ (intSize - 1)"
    by simp_all
  then have atoi: "Atoi a = Inr (int (decimal a))" "Atoi b = Inr (int (decimal b))"
    "Atoi c = Inr (int (decimal c))"
    using na(1,2) nb(1,2) nc(1,2) by (simp_all add: Atoi_digits)
  from s show ?thesis
  proof
    assume "s = a @ ''.'' @ b @ ''.'' @ c"
    with build_three [OF na(3) nb(3) nc(3) na(4) nb(4) nc(4) atoi, of r] parts
    show ?thesis by simp
  next
    assume "\<exists>t. s = a @ ''.'' @ b @ ''.'' @ c @ CHR ''-'' # t"
    then obtain t where "s = a @ ''.'' @ b @ ''.'' @ c @ CHR ''-'' # t" by blast
    with build_three_tag [OF na(3) nb(3) nc(3) na(4) nb(4) nc(4) atoi, of r t] parts
    show ?thesis by simp
  qed
qed

subsection \<open>What the pattern rejects and what the parser accepts\<close>




lemma two_parts_invalid:
  assumes "CHR ''.'' \<notin> set a" and "CHR ''.'' \<notin> set b"
  shows "\<not> Valid New (a @ ''.'' @ b)"
proof
  assume "Valid New (a @ ''.'' @ b)"
  from valid_shape [OF this] obtain a' b' r where
    "a @ ''.'' @ b = a' @ ''.'' @ b' @ ''.'' @ r"
    by blast
  then have "Count (a @ CHR ''.'' # b) (CHR ''.'') = Count (a' @ CHR ''.'' # b' @ CHR ''.'' # r) (CHR ''.'')"
    by simp
  with assms show False
    by (simp add: Count_cut Count_no_sep)
qed

lemma buildVersion_parts:
  "buildVersion s v =
     (let versionParts = coreParts v; n = length versionParts
      in if n \<noteq> 2 \<and> n \<noteq> 3 then Inl (PartsErr n)
         else case Atoi (versionParts ! 0) of
                Inl err \<Rightarrow> Inl err
              | Inr mj \<Rightarrow>
             (case Atoi (versionParts ! 1) of
                Inl err \<Rightarrow> Inl err
              | Inr mn \<Rightarrow>
             (if n = 3
              then case Atoi (versionParts ! 2) of
                     Inl err \<Rightarrow> Inl err
                   | Inr rv \<Rightarrow> Inr \<lparr>major = mj, minor = mn, revision = rv,
                                 tag = tl (dropWhile (\<lambda>c. c \<noteq> CHR ''-'') v)\<rparr>
              else Inr \<lparr>major = mj, minor = mn, revision = 0,
                        tag = tl (dropWhile (\<lambda>c. c \<noteq> CHR ''-'') v)\<rparr>)))"
proof (cases "CHR ''-'' \<in> set v")
  case True
  then show ?thesis
    by (simp add: buildVersion_def Contains_def SplitN_two_chunks coreParts_def
        expectedChunksWithTag_def exptectedPartsWithRevision_def Trace_def Let_def
        cong del: if_weak_cong sum.case_cong_weak)
next
  case False
  then have whole: "takeWhile (\<lambda>c. c \<noteq> CHR ''-'') v = v"
    "dropWhile (\<lambda>c. c \<noteq> CHR ''-'') v = []"
    by (auto simp: takeWhile_eq_all_conv)
  from False show ?thesis
    by (simp add: buildVersion_def Contains_def coreParts_def whole
        expectedChunksWithTag_def exptectedPartsWithRevision_def Trace_def Let_def
        cong del: if_weak_cong sum.case_cong_weak)
qed

lemma Atoi_error: "Atoi a = Inl e \<Longrightarrow> \<exists>k. e = NumError a k"
  by (auto simp: Atoi_def split: sum.splits)

lemma parts_error_iff:
  "(buildVersion s v = Inl (PartsErr n)) \<longleftrightarrow>
     (n = length (coreParts v) \<and> n \<noteq> 2 \<and> n \<noteq> 3)"
proof (cases "length (coreParts v) \<noteq> 2 \<and> length (coreParts v) \<noteq> 3")
  case True
  then show ?thesis
    by (auto simp: buildVersion_parts Let_def)
next
  case False
  have "buildVersion s v \<noteq> Inl (PartsErr n)"
    using False
    by (auto simp: buildVersion_parts Let_def split: sum.splits dest: Atoi_error)
  with False show ?thesis by auto
qed

section \<open>The comparisons on parsed versions\<close>

lemma gte_parsed:
  assumes "Valid s version" and "Valid s compare"
    and "buildVersion s version = Inr v" and "buildVersion s compare = Inr c"
  shows "GreaterThanOrEqual s version compare =
           (if major v \<noteq> major c then major v > major c
            else if minor v \<noteq> minor c then minor v > minor c
            else revision v \<ge> revision c, None)"
  using assms by (simp add: GreaterThanOrEqual_def)

lemma ste_parsed:
  assumes "Valid s version" and "Valid s compare"
    and "buildVersion s version = Inr v" and "buildVersion s compare = Inr c"
  shows "SmallerThanOrEqual s version compare =
           (if major v \<noteq> major c then major v < major c
            else if minor v \<noteq> minor c then minor v < minor c
            else revision v \<le> revision c, None)"
  using assms by (simp add: SmallerThanOrEqual_def)

lemma gte_error_false:
  "snd (GreaterThanOrEqual s version compare) = Some e \<Longrightarrow>
   fst (GreaterThanOrEqual s version compare) = False"
  by (auto simp: GreaterThanOrEqual_def split: if_splits sum.splits)

lemma ste_error_false:
  "snd (SmallerThanOrEqual s version compare) = Some e \<Longrightarrow>
   fst (SmallerThanOrEqual s version compare) = False"
  by (auto simp: SmallerThanOrEqual_def split: if_splits sum.splits)

lemma gte_ok:
  assumes "snd (GreaterThanOrEqual s version compare) = None"
  shows "Valid s version \<and> Valid s compare \<and>
         (\<exists>v c. buildVersion s version = Inr v \<and> buildVersion s compare = Inr c)"
  using assms by (auto simp: GreaterThanOrEqual_def split: if_splits sum.splits)

text \<open>
  Claim C2. When both strings are valid and both parse, \<open>GreaterThanOrEqual\<close> returns,
  with no error, the lexicographic comparison of (major, minor, revision): where the
  majors differ, whether the first major is the greater; else where the minors differ,
  whether the first minor is the greater; else whether the first revision is at least
  the second.
\<close>

theorem GreaterThanOrEqual_lexicographic:
  assumes "Valid s version" and "Valid s compare"
    and "buildVersion s version = Inr v" and "buildVersion s compare = Inr c"
  shows "GreaterThanOrEqual s version compare =
           (if major v \<noteq> major c then major v > major c
            else if minor v \<noteq> minor c then minor v > minor c
            else revision v \<ge> revision c, None)"
  using assms by (rule gte_parsed)

theorem GreaterThanOrEqual_lexicographic_witness:
  "Valid New ''2.12.13'' \<and> Valid New ''2.33.44-rc.1'' \<and>
   buildVersion New ''2.12.13'' = Inr \<lparr>major = 2, minor = 12, revision = 13, tag = []\<rparr> \<and>
   buildVersion New ''2.33.44-rc.1'' =
     Inr \<lparr>major = 2, minor = 33, revision = 44, tag = ''rc.1''\<rparr> \<and>
   GreaterThanOrEqual New ''2.12.13'' ''2.33.44-rc.1'' = (False, None)"
proof -
  have h1: "Valid New ''2.12.13''" by (simp add: valid_eval)
  have h2: "Valid New ''2.33.44-rc.1''" by (simp add: valid_eval)
  have h3: "buildVersion New ''2.12.13'' =
      Inr \<lparr>major = 2, minor = 12, revision = 13, tag = []\<rparr>"
    by (simp add: build_eval)
  have h4: "buildVersion New ''2.33.44-rc.1'' =
      Inr \<lparr>major = 2, minor = 33, revision = 44, tag = ''rc.1''\<rparr>"
    by (simp add: build_eval)
  from GreaterThanOrEqual_lexicographic [OF h1 h2 h3 h4] h1 h2 h3 h4
  show ?thesis by simp
qed

text \<open>
  Claim C3. When both strings are valid and both parse, \<open>SmallerThanOrEqual\<close> returns,
  with no error, the mirror image: a strictly greater major gives false, a strictly
  smaller major gives true; else the minors decide in the same way; else the result is
  whether the first revision is at most the second.
\<close>

theorem SmallerThanOrEqual_mirror:
  assumes "Valid s version" and "Valid s compare"
    and "buildVersion s version = Inr v" and "buildVersion s compare = Inr c"
  shows "SmallerThanOrEqual s version compare =
           (if major v > major c then False
            else if major v < major c then True
            else if minor v > minor c then False
            else if minor v < minor c then True
            else revision v \<le> revision c, None)"
  using ste_parsed [OF assms] by auto

theorem SmallerThanOrEqual_mirror_witness:
  "Valid New ''0.20.19'' \<and> Valid New ''0.3.2'' \<and>
   buildVersion New ''0.20.19'' = Inr \<lparr>major = 0, minor = 20, revision = 19, tag = []\<rparr> \<and>
   buildVersion New ''0.3.2'' = Inr \<lparr>major = 0, minor = 3, revision = 2, tag = []\<rparr> \<and>
   SmallerThanOrEqual New ''0.20.19'' ''0.3.2'' = (False, None)"
proof -
  have h1: "Valid New ''0.20.19''" by (simp add: valid_eval)
  have h2: "Valid New ''0.3.2''" by (simp add: valid_eval)
  have h3: "buildVersion New ''0.20.19'' =
      Inr \<lparr>major = 0, minor = 20, revision = 19, tag = []\<rparr>"
    by (simp add: build_eval)
  have h4: "buildVersion New ''0.3.2'' = Inr \<lparr>major = 0, minor = 3, revision = 2, tag = []\<rparr>"
    by (simp add: build_eval)
  from SmallerThanOrEqual_mirror [OF h1 h2 h3 h4] h1 h2 h3 h4
  show ?thesis by simp
qed

text \<open>
  Claim C5. With an empty end, \<open>InRange\<close> returns exactly what \<open>GreaterThanOrEqual\<close>
  returns on the version and the start, boolean and error, whatever the pattern of the
  instance says about the empty string: the end is neither validated nor parsed. With a
  non-empty end, the first failure of the lower and then of the upper bound check is
  returned with the boolean false, and otherwise the conjunction of the two checks.
\<close>

theorem InRange_bounds:
  "InRange s version start [] = GreaterThanOrEqual s version start \<and>
   (end' \<noteq> [] \<longrightarrow>
      InRange s version start end' =
        (case GreaterThanOrEqual s version start of
           (_, Some err) \<Rightarrow> (False, Some err)
         | (ge, None) \<Rightarrow>
             (case SmallerThanOrEqual s version end' of
                (_, Some err) \<Rightarrow> (False, Some err)
              | (le, None) \<Rightarrow> (ge \<and> le, None))))"
proof
  show "InRange s version start [] = GreaterThanOrEqual s version start"
  proof (cases "GreaterThanOrEqual s version start")
    case (Pair b eo)
    show ?thesis
    proof (cases eo)
      case None
      with Pair show ?thesis by (simp add: InRange_def)
    next
      case (Some e)
      with Pair gte_error_false [of s version start e] show ?thesis
        by (simp add: InRange_def Trace_def)
    qed
  qed
next
  show "end' \<noteq> [] \<longrightarrow>
      InRange s version start end' =
        (case GreaterThanOrEqual s version start of
           (_, Some err) \<Rightarrow> (False, Some err)
         | (ge, None) \<Rightarrow>
             (case SmallerThanOrEqual s version end' of
                (_, Some err) \<Rightarrow> (False, Some err)
              | (le, None) \<Rightarrow> (ge \<and> le, None)))"
    by (simp add: InRange_def Trace_def split: prod.splits option.splits)
qed

lemma gte_12_11: "GreaterThanOrEqual New ''12.13.14'' ''11.22.33'' = (True, None)"
  by (simp add: GreaterThanOrEqual_def valid_eval build_eval)

lemma ste_12_13: "SmallerThanOrEqual New ''12.13.14'' ''13.44.55'' = (True, None)"
  by (simp add: SmallerThanOrEqual_def valid_eval build_eval)

theorem InRange_bounds_witness:
  "''13.44.55'' \<noteq> [] \<and> InRange New ''12.13.14'' ''11.22.33'' ''13.44.55'' = (True, None) \<and>
   InRange New ''12.13.14'' ''11.22.33'' [] = (True, None)"
  using InRange_bounds [of New "''12.13.14''" "''11.22.33''" "''13.44.55''"]
  by (simp add: gte_12_11 ste_12_13)

text \<open>
  Claim C6. A comparison whose first operand is invalid returns false with the error
  that names the version and carries its value, whatever the second operand is; with a
  valid first and an invalid second operand it returns false with the error that names
  the compared operand and carries its value. \<open>InRange\<close> does the same for the version
  and the start, and for a non-empty invalid end once the lower bound check has returned
  without error.
\<close>

theorem invalid_operand_error:
  "(\<not> Valid s version \<longrightarrow>
      GreaterThanOrEqual s version compare = (False, Some (InvalidVersion version)) \<and>
      SmallerThanOrEqual s version compare = (False, Some (InvalidVersion version)) \<and>
      InRange s version compare end' = (False, Some (InvalidVersion version))) \<and>
   (Valid s version \<and> \<not> Valid s compare \<longrightarrow>
      GreaterThanOrEqual s version compare = (False, Some (InvalidCompare compare)) \<and>
      SmallerThanOrEqual s version compare = (False, Some (InvalidCompare compare)) \<and>
      InRange s version compare end' = (False, Some (InvalidCompare compare))) \<and>
   (snd (GreaterThanOrEqual s version compare) = None \<and> end' \<noteq> [] \<and> \<not> Valid s end' \<longrightarrow>
      InRange s version compare end' = (False, Some (InvalidCompare end')))"
proof (intro conjI impI)
  assume "\<not> Valid s version"
  then show "GreaterThanOrEqual s version compare = (False, Some (InvalidVersion version))"
    and "SmallerThanOrEqual s version compare = (False, Some (InvalidVersion version))"
    and "InRange s version compare end' = (False, Some (InvalidVersion version))"
    by (simp_all add: GreaterThanOrEqual_def SmallerThanOrEqual_def InRange_def Trace_def)
next
  assume "Valid s version \<and> \<not> Valid s compare"
  then show "GreaterThanOrEqual s version compare = (False, Some (InvalidCompare compare))"
    and "SmallerThanOrEqual s version compare = (False, Some (InvalidCompare compare))"
    and "InRange s version compare end' = (False, Some (InvalidCompare compare))"
    by (simp_all add: GreaterThanOrEqual_def SmallerThanOrEqual_def InRange_def Trace_def)
next
  assume a: "snd (GreaterThanOrEqual s version compare) = None \<and> end' \<noteq> [] \<and> \<not> Valid s end'"
  from a gte_ok [of s version compare] have v: "Valid s version" by simp
  from a v have "SmallerThanOrEqual s version end' = (False, Some (InvalidCompare end'))"
    by (simp add: SmallerThanOrEqual_def)
  with a show "InRange s version compare end' = (False, Some (InvalidCompare end'))"
    by (cases "GreaterThanOrEqual s version compare") (simp add: InRange_def Trace_def)
qed

lemma invalid_8: "\<not> Valid New ''8.''"
  by (simp add: valid_eval)

lemma valid_001: "Valid New ''0.0.1''"
  by (simp add: valid_eval)

lemma gte_001: "GreaterThanOrEqual New ''0.0.1'' ''0.0.1'' = (True, None)"
  by (simp add: GreaterThanOrEqual_def valid_eval build_eval)

theorem invalid_operand_error_witness:
  "(\<not> Valid New ''8.'' \<and>
      GreaterThanOrEqual New ''8.'' ''9'' = (False, Some (InvalidVersion ''8.'')) \<and>
      SmallerThanOrEqual New ''8.'' ''9'' = (False, Some (InvalidVersion ''8.'')) \<and>
      InRange New ''8.'' ''9'' ''2.0'' = (False, Some (InvalidVersion ''8.''))) \<and>
   (Valid New ''0.0.1'' \<and> \<not> Valid New ''8.'' \<and>
      GreaterThanOrEqual New ''0.0.1'' ''8.'' = (False, Some (InvalidCompare ''8.'')) \<and>
      SmallerThanOrEqual New ''0.0.1'' ''8.'' = (False, Some (InvalidCompare ''8.'')) \<and>
      InRange New ''0.0.1'' ''8.'' ''8.'' = (False, Some (InvalidCompare ''8.''))) \<and>
   (snd (GreaterThanOrEqual New ''0.0.1'' ''0.0.1'') = None \<and> ''8.'' \<noteq> [] \<and>
      \<not> Valid New ''8.'' \<and>
      InRange New ''0.0.1'' ''0.0.1'' ''8.'' = (False, Some (InvalidCompare ''8.'')))"
  using invalid_operand_error [of New "''8.''" "''9''" "''2.0''"]
    invalid_operand_error [of New "''0.0.1''" "''8.''" "''8.''"]
    invalid_operand_error [of New "''0.0.1''" "''0.0.1''" "''8.''"]
  by (simp add: invalid_8 valid_001 gte_001)

text \<open>
  Claim C8. The tag takes no part in the order: two valid strings that parse to the
  same major, minor and revision, whatever their tags, are greater-or-equal and
  smaller-or-equal to each other in both argument orders, as are \<open>1.2.3-alpha\<close> and
  \<open>1.2.3-beta\<close>.
\<close>

theorem tag_independence:
  assumes "Valid s a" and "Valid s b"
    and "buildVersion s a = Inr va" and "buildVersion s b = Inr vb"
    and "major va = major vb" and "minor va = minor vb" and "revision va = revision vb"
  shows "GreaterThanOrEqual s a b = (True, None) \<and> GreaterThanOrEqual s b a = (True, None) \<and>
         SmallerThanOrEqual s a b = (True, None) \<and> SmallerThanOrEqual s b a = (True, None)"
  using assms by (simp add: gte_parsed ste_parsed)

theorem tag_independence_witness:
  "Valid New ''1.2.3-alpha'' \<and> Valid New ''1.2.3-beta'' \<and>
   buildVersion New ''1.2.3-alpha'' =
     Inr \<lparr>major = 1, minor = 2, revision = 3, tag = ''alpha''\<rparr> \<and>
   buildVersion New ''1.2.3-beta'' =
     Inr \<lparr>major = 1, minor = 2, revision = 3, tag = ''beta''\<rparr> \<and>
   GreaterThanOrEqual New ''1.2.3-alpha'' ''1.2.3-beta'' = (True, None) \<and>
   GreaterThanOrEqual New ''1.2.3-beta'' ''1.2.3-alpha'' = (True, None) \<and>
   SmallerThanOrEqual New ''1.2.3-alpha'' ''1.2.3-beta'' = (True, None) \<and>
   SmallerThanOrEqual New ''1.2.3-beta'' ''1.2.3-alpha'' = (True, None)"
proof -
  have h1: "Valid New ''1.2.3-alpha''" by (simp add: valid_eval)
  have h2: "Valid New ''1.2.3-beta''" by (simp add: valid_eval)
  have h3: "buildVersion New ''1.2.3-alpha'' =
      Inr \<lparr>major = 1, minor = 2, revision = 3, tag = ''alpha''\<rparr>"
    by (simp add: build_eval)
  have h4: "buildVersion New ''1.2.3-beta'' =
      Inr \<lparr>major = 1, minor = 2, revision = 3, tag = ''beta''\<rparr>"
    by (simp add: build_eval)
  from tag_independence [OF h1 h2 h3 h4] h1 h2 h3 h4 show ?thesis by simp
qed

text \<open>
  Claim C10. \<open>GreaterThanOrEqual\<close> is transitive: when the calls on (a, b) and (b, c)
  return true without error and the call on (a, c) returns without error, the call on
  (a, c) returns true.
\<close>

theorem GreaterThanOrEqual_transitive:
  assumes "GreaterThanOrEqual s a b = (True, None)"
    and "GreaterThanOrEqual s b c = (True, None)"
    and "snd (GreaterThanOrEqual s a c) = None"
  shows "GreaterThanOrEqual s a c = (True, None)"
proof -
  from assms(1) gte_ok [of s a b] obtain va vb where
    a: "Valid s a" "buildVersion s a = Inr va" and b: "Valid s b" "buildVersion s b = Inr vb"
    by auto
  from assms(2) gte_ok [of s b c] obtain vc where
    c: "Valid s c" "buildVersion s c = Inr vc"
    by auto
  from assms(1) have ab: "(if major va \<noteq> major vb then major va > major vb
            else if minor va \<noteq> minor vb then minor va > minor vb
            else revision va \<ge> revision vb)"
    by (simp add: gte_parsed [OF a(1) b(1) a(2) b(2)])
  from assms(2) have bc: "(if major vb \<noteq> major vc then major vb > major vc
            else if minor vb \<noteq> minor vc then minor vb > minor vc
            else revision vb \<ge> revision vc)"
    by (simp add: gte_parsed [OF b(1) c(1) b(2) c(2)])
  from ab bc show ?thesis
    by (simp add: gte_parsed [OF a(1) c(1) a(2) c(2)] split: if_splits)
qed

theorem GreaterThanOrEqual_transitive_witness:
  "GreaterThanOrEqual New ''2.0.0'' ''1.5.0-rc'' = (True, None) \<and>
   GreaterThanOrEqual New ''1.5.0-rc'' ''1.5.0'' = (True, None) \<and>
   snd (GreaterThanOrEqual New ''2.0.0'' ''1.5.0'') = None \<and>
   GreaterThanOrEqual New ''2.0.0'' ''1.5.0'' = (True, None)"
proof -
  have h1: "GreaterThanOrEqual New ''2.0.0'' ''1.5.0-rc'' = (True, None)"
    by (simp add: GreaterThanOrEqual_def valid_eval build_eval)
  have h2: "GreaterThanOrEqual New ''1.5.0-rc'' ''1.5.0'' = (True, None)"
    by (simp add: GreaterThanOrEqual_def valid_eval build_eval)
  have h3: "snd (GreaterThanOrEqual New ''2.0.0'' ''1.5.0'') = None"
    by (simp add: GreaterThanOrEqual_def valid_eval build_eval)
  from GreaterThanOrEqual_transitive [OF h1 h2 h3] h1 h2 h3 show ?thesis by simp
qed


section \<open>Valid strings and the parser\<close>

text \<open>
  Claim C1, as amended. A valid string with no \<open>+\<close> before its first dash (none at
  all when it has no dash) and whose three core numbers are below \<open>2 ^ 63\<close> (the
  range of \<open>int\<close>) is parsed by \<open>buildVersion\<close> without error, also when a build
  suffix follows its tag; so on two such operands \<open>GreaterThanOrEqual\<close> and
  \<open>SmallerThanOrEqual\<close> return no error: none of the branches that propagate an
  error of the parser is taken.
\<close>

theorem valid_parses:
  assumes "Valid New version"
    and "CHR ''+'' \<notin> set (takeWhile (\<lambda>c. c \<noteq> CHR ''-'') version)"
    and "\<forall>p \<in> set (coreParts version). decimal p < 2 ^ (intSize - 1)"
    and "Valid New compare"
    and "CHR ''+'' \<notin> set (takeWhile (\<lambda>c. c \<noteq> CHR ''-'') compare)"
    and "\<forall>p \<in> set (coreParts compare). decimal p < 2 ^ (intSize - 1)"
  shows "(\<exists>v. buildVersion New version = Inr v) \<and> (\<exists>c. buildVersion New compare = Inr c) \<and>
         snd (GreaterThanOrEqual New version compare) = None \<and>
         snd (SmallerThanOrEqual New version compare) = None"
proof -
  from valid_builds [OF assms(1-3), of New] obtain v where v: "buildVersion New version = Inr v"
    by blast
  from valid_builds [OF assms(4-6), of New] obtain c where c: "buildVersion New compare = Inr c"
    by blast
  from v c show ?thesis
    by (simp add: gte_parsed [OF assms(1) assms(4) v c] ste_parsed [OF assms(1) assms(4) v c])
qed

lemma coreParts_1918: "coreParts ''1.9.18-hotfix+build.7'' = [''1'', ''9'', ''18'']"
  by (simp add: coreParts_def string_eval)

lemma coreParts_123: "coreParts ''1.2.3'' = [''1'', ''2'', ''3'']"
  by (simp add: coreParts_def string_eval)

lemma decimal_small:
  "decimal ''1'' = 1" "decimal ''2'' = 2" "decimal ''3'' = 3" "decimal ''9'' = 9"
  "decimal ''18'' = 18"
  by (simp_all add: decimal_def digitVal_def)

theorem valid_parses_witness:
  "Valid New ''1.9.18-hotfix+build.7'' \<and>
   CHR ''+'' \<notin> set (takeWhile (\<lambda>c. c \<noteq> CHR ''-'') ''1.9.18-hotfix+build.7'') \<and>
   coreParts ''1.9.18-hotfix+build.7'' = [''1'', ''9'', ''18''] \<and>
   decimal ''1'' < 2 ^ (intSize - 1) \<and> decimal ''9'' < 2 ^ (intSize - 1) \<and>
   decimal ''18'' < 2 ^ (intSize - 1) \<and>
   Valid New ''1.2.3'' \<and>
   CHR ''+'' \<notin> set (takeWhile (\<lambda>c. c \<noteq> CHR ''-'') ''1.2.3'') \<and>
   coreParts ''1.2.3'' = [''1'', ''2'', ''3''] \<and>
   decimal ''2'' < 2 ^ (intSize - 1) \<and> decimal ''3'' < 2 ^ (intSize - 1) \<and>
   (\<exists>v. buildVersion New ''1.9.18-hotfix+build.7'' = Inr v) \<and>
   (\<exists>c. buildVersion New ''1.2.3'' = Inr c) \<and>
   snd (GreaterThanOrEqual New ''1.9.18-hotfix+build.7'' ''1.2.3'') = None \<and>
   snd (SmallerThanOrEqual New ''1.9.18-hotfix+build.7'' ''1.2.3'') = None"
proof -
  have h1: "Valid New ''1.9.18-hotfix+build.7''" by (simp add: valid_eval)
  have h2: "CHR ''+'' \<notin> set (takeWhile (\<lambda>c. c \<noteq> CHR ''-'') ''1.9.18-hotfix+build.7'')"
    by simp
  have h3: "\<forall>p \<in> set (coreParts ''1.9.18-hotfix+build.7''). decimal p < 2 ^ (intSize - 1)"
    by (simp add: coreParts_1918 decimal_small intSize_def)
  have h4: "Valid New ''1.2.3''" by (simp add: valid_eval)
  have h5: "CHR ''+'' \<notin> set (takeWhile (\<lambda>c. c \<noteq> CHR ''-'') ''1.2.3'')" by simp
  have h6: "\<forall>p \<in> set (coreParts ''1.2.3''). decimal p < 2 ^ (intSize - 1)"
    by (simp add: coreParts_123 decimal_small intSize_def)
  from valid_parses [OF h1 h2 h3 h4 h5 h6] h1 h4 show ?thesis
    by (simp add: coreParts_1918 coreParts_123 decimal_small intSize_def)
qed

text \<open>
  The claim C1 as it was stated fails: the pattern accepts digit groups of any length
  and a build suffix behind \<open>+\<close>, and \<open>buildVersion\<close> returns the error of
  \<open>Atoi\<close> on a core number of \<open>2 ^ 63\<close> and on the piece that still carries a
  build suffix that no dash precedes.
\<close>

theorem valid_parses_counterexample:
  "Valid New ''9223372036854775808.0.0'' \<and>
   buildVersion New ''9223372036854775808.0.0'' =
     Inl (NumError ''9223372036854775808'' ErrRange) \<and>
   Valid New ''1.2.3+build'' \<and>
   buildVersion New ''1.2.3+build'' = Inl (NumError ''3+build'' ErrSyntax)"
proof (intro conjI)
  show "Valid New ''9223372036854775808.0.0''"
    by (simp add: valid_eval)
  show "buildVersion New ''9223372036854775808.0.0'' =
      Inl (NumError ''9223372036854775808'' ErrRange)"
    by (simp add: build_eval)
  show "Valid New ''1.2.3+build''"
    by (simp add: valid_eval)
  show "buildVersion New ''1.2.3+build'' = Inl (NumError ''3+build'' ErrSyntax)"
    by (simp add: build_eval)
qed

text \<open>
  Claim C7, as amended. Reflexivity: on a valid string with no \<open>+\<close> before its first
  dash (none at all when it has no dash) and whose three core numbers are below
  \<open>2 ^ 63\<close>, compared with itself, \<open>GreaterThanOrEqual\<close> returns true without
  error and so does \<open>SmallerThanOrEqual\<close>.
\<close>

theorem reflexive:
  assumes "Valid New v" and "CHR ''+'' \<notin> set (takeWhile (\<lambda>c. c \<noteq> CHR ''-'') v)"
    and "\<forall>p \<in> set (coreParts v). decimal p < 2 ^ (intSize - 1)"
  shows "GreaterThanOrEqual New v v = (True, None) \<and> SmallerThanOrEqual New v v = (True, None)"
proof -
  from valid_builds [OF assms, of New] obtain sv where sv: "buildVersion New v = Inr sv"
    by blast
  show ?thesis
    by (simp add: gte_parsed [OF assms(1) assms(1) sv sv] ste_parsed [OF assms(1) assms(1) sv sv])
qed

lemma coreParts_10_5_7: "coreParts ''10.5.7-alpha+build'' = [''10'', ''5'', ''7'']"
  by (simp add: coreParts_def string_eval)

lemma decimal_small2: "decimal ''10'' = 10" "decimal ''5'' = 5" "decimal ''7'' = 7"
  by (simp_all add: decimal_def digitVal_def)

theorem reflexive_witness:
  "Valid New ''10.5.7-alpha+build'' \<and>
   CHR ''+'' \<notin> set (takeWhile (\<lambda>c. c \<noteq> CHR ''-'') ''10.5.7-alpha+build'') \<and>
   coreParts ''10.5.7-alpha+build'' = [''10'', ''5'', ''7''] \<and>
   decimal ''10'' < 2 ^ (intSize - 1) \<and> decimal ''5'' < 2 ^ (intSize - 1) \<and>
   decimal ''7'' < 2 ^ (intSize - 1) \<and>
   GreaterThanOrEqual New ''10.5.7-alpha+build'' ''10.5.7-alpha+build'' = (True, None) \<and>
   SmallerThanOrEqual New ''10.5.7-alpha+build'' ''10.5.7-alpha+build'' = (True, None)"
proof -
  have h1: "Valid New ''10.5.7-alpha+build''" by (simp add: valid_eval)
  have h2: "CHR ''+'' \<notin> set (takeWhile (\<lambda>c. c \<noteq> CHR ''-'') ''10.5.7-alpha+build'')"
    by simp
  have h3: "\<forall>p \<in> set (coreParts ''10.5.7-alpha+build''). decimal p < 2 ^ (intSize - 1)"
    by (simp add: coreParts_10_5_7 decimal_small2 intSize_def)
  from reflexive [OF h1 h2 h3] h1 show ?thesis
    by (simp add: coreParts_10_5_7 decimal_small2 intSize_def)
qed

text \<open>
  The claim C7 as it was stated fails on the valid strings that the parser rejects: both
  comparisons of such a string with itself return false and the error of the parser.
\<close>

theorem reflexive_counterexample:
  "Valid New ''0.9223372036854775808.0'' \<and>
   GreaterThanOrEqual New ''0.9223372036854775808.0'' ''0.9223372036854775808.0'' =
     (False, Some (NumError ''9223372036854775808'' ErrRange)) \<and>
   SmallerThanOrEqual New ''0.9223372036854775808.0'' ''0.9223372036854775808.0'' =
     (False, Some (NumError ''9223372036854775808'' ErrRange)) \<and>
   Valid New ''1.0.0+b'' \<and>
   GreaterThanOrEqual New ''1.0.0+b'' ''1.0.0+b'' = (False, Some (NumError ''0+b'' ErrSyntax)) \<and>
   SmallerThanOrEqual New ''1.0.0+b'' ''1.0.0+b'' = (False, Some (NumError ''0+b'' ErrSyntax))"
proof -
  have v1: "Valid New ''0.9223372036854775808.0''"
    by (simp add: valid_eval)
  have b1: "buildVersion New ''0.9223372036854775808.0'' =
      Inl (NumError ''9223372036854775808'' ErrRange)"
    by (simp add: build_eval)
  have v2: "Valid New ''1.0.0+b''"
    by (simp add: valid_eval)
  have b2: "buildVersion New ''1.0.0+b'' = Inl (NumError ''0+b'' ErrSyntax)"
    by (simp add: build_eval)
  show ?thesis
    by (simp add: GreaterThanOrEqual_def SmallerThanOrEqual_def v1 b1 v2 b2 Trace_def)
qed

section \<open>The validator and the parser\<close>



text \<open>
  Claim C9. The parser accepts a core of two pieces: for \<open>a\<close> and \<open>b\<close> without dot
  and dash that \<open>Atoi\<close> converts, \<open>buildVersion\<close> parses \<open>a.b\<close> to major \<open>a\<close>,
  minor \<open>b\<close>, revision 0 and no tag, while \<open>Valid\<close> rejects every string of two
  dot-free pieces. And \<open>buildVersion\<close> returns the parts-count error, with the count,
  exactly when what stands before the first dash splits on the dot into a number of
  parts other than 2 and 3.
\<close>

theorem parser_validator_asymmetry:
  "(CHR ''.'' \<notin> set a \<and> CHR ''.'' \<notin> set b \<and> CHR ''-'' \<notin> set a \<and> CHR ''-'' \<notin> set b \<and>
    Atoi a = Inr i \<and> Atoi b = Inr j \<longrightarrow>
      buildVersion s (a @ ''.'' @ b) = Inr \<lparr>major = i, minor = j, revision = 0, tag = []\<rparr>) \<and>
   (CHR ''.'' \<notin> set a \<and> CHR ''.'' \<notin> set b \<longrightarrow> \<not> Valid New (a @ ''.'' @ b)) \<and>
   (buildVersion s v = Inl (PartsErr n) \<longleftrightarrow>
      n = length (coreParts v) \<and> n \<noteq> 2 \<and> n \<noteq> 3)"
proof (intro conjI impI)
  assume "CHR ''.'' \<notin> set a \<and> CHR ''.'' \<notin> set b \<and> CHR ''-'' \<notin> set a \<and> CHR ''-'' \<notin> set b \<and>
    Atoi a = Inr i \<and> Atoi b = Inr j"
  then show "buildVersion s (a @ ''.'' @ b) =
      Inr \<lparr>major = i, minor = j, revision = 0, tag = []\<rparr>"
    using build_two [of a b i j s] by simp
next
  assume "CHR ''.'' \<notin> set a \<and> CHR ''.'' \<notin> set b"
  then show "\<not> Valid New (a @ ''.'' @ b)"
    using two_parts_invalid [of a b] by simp
next
  show "buildVersion s v = Inl (PartsErr n) \<longleftrightarrow>
      n = length (coreParts v) \<and> n \<noteq> 2 \<and> n \<noteq> 3"
    by (rule parts_error_iff)
qed

theorem parser_validator_asymmetry_witness:
  "CHR ''.'' \<notin> set ''1'' \<and> CHR ''.'' \<notin> set ''2'' \<and> CHR ''-'' \<notin> set ''1'' \<and>
   CHR ''-'' \<notin> set ''2'' \<and> Atoi ''1'' = Inr 1 \<and> Atoi ''2'' = Inr 2 \<and>
   buildVersion New ''1.2'' = Inr \<lparr>major = 1, minor = 2, revision = 0, tag = []\<rparr> \<and>
   \<not> Valid New ''1.2'' \<and>
   coreParts ''1.2.3.4-rc.1'' = [''1'', ''2'', ''3'', ''4''] \<and>
   buildVersion New ''1.2.3.4-rc.1'' = Inl (PartsErr 4)"
proof -
  have h: "CHR ''.'' \<notin> set ''1'' \<and> CHR ''.'' \<notin> set ''2'' \<and> CHR ''-'' \<notin> set ''1'' \<and>
      CHR ''-'' \<notin> set ''2'' \<and> Atoi ''1'' = Inr 1 \<and> Atoi ''2'' = Inr 2"
    by (simp add: atoi_eval)
  have p: "coreParts ''1.2.3.4-rc.1'' = [''1'', ''2'', ''3'', ''4'']"
    by (simp add: coreParts_def string_eval)
  from parser_validator_asymmetry [of "''1''" "''2''" 1 2 New "''1.2.3.4-rc.1''" 4] h p
  show ?thesis by simp
qed

end
